theory Spec2Isabelle
  imports Main "HOL-Library.Sublist"
begin

section \<open>TextWorld game environment: command translation and reward shaping\<close>

text \<open>
  A shallow embedding of \<^verbatim>\<open>environments/tf_game_env.py\<close> (class \<^verbatim>\<open>TWGameEnv\<close>).
  Python integers are \<open>int\<close>, strings are \<open>string\<close>, every raise is a value of
  \<open>error\<close>. The two collaborators that are not part of the file are parameters:
  Python's builtin \<^verbatim>\<open>hash\<close> on strings (an arbitrary function \<open>string \<Rightarrow> int\<close>) and the
  TextWorld gym game (a record of a fresh game and a step function).
\<close>

subsection \<open>Python primitives\<close>

datatype error = IndexError | TypeError | AttributeError

text \<open>\<^verbatim>\<open>xs[i]\<close> on a Python list: a negative index counts from the end, an index
  outside \<open>[-len, len - 1]\<close> raises IndexError.\<close>

definition py_index :: "'a list \<Rightarrow> int \<Rightarrow> error + 'a" where
  "py_index xs i =
     (if 0 \<le> i \<and> i < int (length xs) then Inr (xs ! nat i)
      else if i < 0 \<and> - int (length xs) \<le> i then Inr (xs ! nat (int (length xs) + i))
      else Inl IndexError)"

text \<open>\<^verbatim>\<open>s in t\<close> on Python strings: \<open>s\<close> occurs in \<open>t\<close> as a contiguous substring.\<close>

fun py_in :: "string \<Rightarrow> string \<Rightarrow> bool" where
  "py_in s [] = (s = [])"
| "py_in s (c # t) = (prefix s (c # t) \<or> py_in s t)"

text \<open>\<^verbatim>\<open>s.find(c)\<close> for a one-character string \<open>c\<close>: the index of the first
  occurrence, or \<open>-1\<close> when there is none.\<close>

definition py_find :: "string \<Rightarrow> char \<Rightarrow> int" where
  "py_find s c = (if c \<in> set s then int (length (takeWhile (\<lambda>x. x \<noteq> c) s)) else -1)"

text \<open>\<^verbatim>\<open>s[:k]\<close>: a negative bound counts from the end (clipped at the start).\<close>

definition py_slice_to :: "string \<Rightarrow> int \<Rightarrow> string" where
  "py_slice_to s k = (if k < 0 then take (nat (int (length s) + k)) s else take (nat k) s)"

subsection \<open>Constants\<close>

definition HASH_LIST_LENGTH :: nat where
  "HASH_LIST_LENGTH = 10"

record reward_dict =
  win_lose_value :: int
  max_loop_pun :: int
  change_reward :: int
  useless_act_pun :: int
  verb_in_adm :: int

definition REWARD_DICT :: reward_dict where
  "REWARD_DICT = \<lparr> win_lose_value = 100, max_loop_pun = 5, change_reward = 1,
                    useless_act_pun = 1, verb_in_adm = 1 \<rparr>"

subsection \<open>Game states\<close>

text \<open>The \<^verbatim>\<open>info\<close> dictionary of the gym step and the state dictionary built from it by
  \<^verbatim>\<open>_conv_to_state\<close>. (\<open>done\<close> is a keyword here, hence \<open>done_f\<close>.)\<close>

record info =
  info_won :: bool
  info_lost :: bool
  info_description :: string
  info_inventory :: string
  info_admissible_commands :: "string list"
  info_entities :: "string list"

record game_state =
  score :: int
  done_f :: bool
  won :: bool
  lost :: bool
  obs :: string
  description :: string
  inventory :: string
  admissible_commands :: "string list"
  entities :: "string list"

definition conv_to_state :: "string \<Rightarrow> int \<Rightarrow> bool \<Rightarrow> info \<Rightarrow> game_state" where
  "conv_to_state ob sc dn nfo =
     \<lparr> score = sc, done_f = dn, won = info_won nfo, lost = info_lost nfo, obs = ob,
       description = info_description nfo, inventory = info_inventory nfo,
       admissible_commands = info_admissible_commands nfo,
       entities = info_entities nfo \<rparr>"

text \<open>\<^verbatim>\<open>_conv_pass_state\<close>: the description and the inventory, as an array of byte
  strings of at most 500 bytes (\<^verbatim>\<open>STR_TYPE = "S500"\<close>).\<close>

definition conv_pass_state :: "game_state \<Rightarrow> string \<times> string" where
  "conv_pass_state st = (take 500 (description st), take 500 (inventory st))"

subsection \<open>The environment\<close>

text \<open>The TextWorld gym game: \<open>gym_fresh\<close> is the game after \<^verbatim>\<open>gym.make\<close> and
  \<^verbatim>\<open>reset()\<close>, \<open>gym_step\<close> executes one command.\<close>

record 'g gym =
  gym_fresh :: 'g
  gym_step :: "'g \<Rightarrow> string \<Rightarrow> (string \<times> int \<times> bool \<times> info) \<times> 'g"

record 'g TWGameEnv =
  flatten_actspec :: bool
  list_verb :: "string list"
  list_obj :: "string list"
  list_badact :: "string list"
  list_verbobj :: "string list option"
  hash_dsc :: "int list"
  hash_inv :: "int list"
  curr_TWGym :: "'g option"
  state :: "game_state option"
  episode_ended :: bool

text \<open>\<^verbatim>\<open>__init__\<close>, with the three word lists already read by \<^verbatim>\<open>_get_words\<close>.\<close>

definition init_env :: "string list \<Rightarrow> string list \<Rightarrow> string list \<Rightarrow> bool \<Rightarrow> 'g TWGameEnv" where
  "init_env verbs objs badact flatten =
     \<lparr> flatten_actspec = flatten,
       list_verb = verbs,
       list_obj = objs,
       list_badact = badact,
       list_verbobj =
         (if flatten
          then Some (concat (map (\<lambda>v. map (\<lambda>obj. v @ '' '' @ obj) objs) verbs))
          else None),
       hash_dsc = replicate HASH_LIST_LENGTH 0,
       hash_inv = replicate HASH_LIST_LENGTH 0,
       curr_TWGym = None,
       state = None,
       episode_ended = False \<rparr>"

text \<open>An action is a scalar index (flattened action space) or a pair of indices.
  Using one where the other is expected raises.\<close>

datatype action = ActIdx int | ActPair int int

text \<open>\<^verbatim>\<open>_conv_to_cmd\<close>.\<close>

definition conv_to_cmd :: "'g TWGameEnv \<Rightarrow> action \<Rightarrow> error + string" where
  "conv_to_cmd e action_ind =
     (if flatten_actspec e then
        (case action_ind of
           ActIdx i \<Rightarrow>
             (case list_verbobj e of
                None \<Rightarrow> Inl TypeError
              | Some vo \<Rightarrow> py_index vo i)
         | ActPair _ _ \<Rightarrow> Inl TypeError)
      else
        (case action_ind of
           ActIdx _ \<Rightarrow> Inl TypeError
         | ActPair a0 a1 \<Rightarrow>
             (case py_index (list_verb e) a0 of
                Inl err \<Rightarrow> Inl err
              | Inr verb \<Rightarrow>
                  (if a1 = 0 then Inr (verb @ '' '' @ '''')
                   else
                     (case py_index (list_obj e) a1 of
                        Inl err \<Rightarrow> Inl err
                      | Inr obj \<Rightarrow> Inr (verb @ '' '' @ obj))))))"

text \<open>\<^verbatim>\<open>_update_hash_cache\<close>: append the fingerprint, then \<^verbatim>\<open>pop(0)\<close>. The list is
  never empty after the append, so the pop never raises.\<close>

definition update_hash_cache ::
  "(string \<Rightarrow> int) \<Rightarrow> 'g TWGameEnv \<Rightarrow> game_state \<Rightarrow> 'g TWGameEnv" where
  "update_hash_cache py_hash e curr_state =
     e \<lparr> hash_dsc := tl (hash_dsc e @ [py_hash (description curr_state)]),
         hash_inv := tl (hash_inv e @ [py_hash (inventory curr_state)]) \<rparr>"

text \<open>\<^verbatim>\<open>_find_verb_in_list\<close>.\<close>

definition find_verb_in_list :: "string \<Rightarrow> string list \<Rightarrow> bool" where
  "find_verb_in_list verb_str adm_cmd =
     (let count = int (length (filter (\<lambda>adm. py_in verb_str adm) adm_cmd))
      in if count \<ge> 1 then True else False)"

text \<open>\<^verbatim>\<open>_calc_cache_changes\<close>: \<^verbatim>\<open>cache[-1]\<close> raises on an empty list.\<close>

definition calc_cache_changes :: "int list \<Rightarrow> error + int" where
  "calc_cache_changes cache =
     (case py_index cache (-1) of
        Inl err \<Rightarrow> Inl err
      | Inr l \<Rightarrow> Inr (int (length (filter (\<lambda>x. x = l) cache))))"

text \<open>\<^verbatim>\<open>_calc_reward\<close>.\<close>

definition calc_reward ::
  "'g TWGameEnv \<Rightarrow> game_state \<Rightarrow> game_state \<Rightarrow> string \<Rightarrow> error + int" where
  "calc_reward e new_state old_state cmd =
     (let reward = 0;
          reward = reward + (score new_state - score old_state);
          reward =
            (if length (filter (\<lambda>elem. py_in elem (obs new_state)) (list_badact e)) \<noteq> 0
             then reward - useless_act_pun REWARD_DICT else reward)
      in case calc_cache_changes (hash_inv e) of
           Inl err \<Rightarrow> Inl err
         | Inr inv_change \<Rightarrow>
        (case calc_cache_changes (hash_dsc e) of
           Inl err \<Rightarrow> Inl err
         | Inr des_change \<Rightarrow>
        (let reward =
               (if inv_change \<le> 1 \<or> des_change \<le> 1
                then reward + change_reward REWARD_DICT
                else reward - min (inv_change - 1)
                                (min (des_change - 1) (max_loop_pun REWARD_DICT)));
             reward =
               (if won new_state then reward + win_lose_value REWARD_DICT
                else if lost new_state then reward - win_lose_value REWARD_DICT
                else reward);
             cmd_in_adm =
               find_verb_in_list (py_slice_to cmd (py_find cmd CHR '' ''))
                 (admissible_commands new_state);
             reward = (if cmd_in_adm then reward + verb_in_adm REWARD_DICT else reward)
         in Inr reward)))"

text \<open>\<^verbatim>\<open>_start_game\<close>: a fresh game, and the state after the command \<^verbatim>\<open>look\<close>.\<close>

definition start_game :: "'g gym \<Rightarrow> 'g TWGameEnv \<Rightarrow> 'g TWGameEnv" where
  "start_game gm e =
     (case gym_step gm (gym_fresh gm) ''look'' of
        ((ob, sc, dn, nfo), g') \<Rightarrow>
          e \<lparr> curr_TWGym := Some g', state := Some (conv_to_state ob sc dn nfo) \<rparr>)"

datatype time_step =
    Restart "string \<times> string"
  | Transition "string \<times> string" int
  | Termination "string \<times> string" int

text \<open>\<^verbatim>\<open>_reset\<close>. The state is never \<open>None\<close> after \<open>start_game\<close>; the branch is there
  because the model reads an optional field.\<close>

definition reset_env :: "'g gym \<Rightarrow> 'g TWGameEnv \<Rightarrow> error + (time_step \<times> 'g TWGameEnv)" where
  "reset_env gm e =
     (let e1 = e \<lparr> episode_ended := False \<rparr>;
          e2 = start_game gm e1
      in case state e2 of
           None \<Rightarrow> Inl TypeError
         | Some st \<Rightarrow> Inr (Restart (conv_pass_state st), e2))"

text \<open>\<^verbatim>\<open>_step\<close>.\<close>

definition step_env ::
  "(string \<Rightarrow> int) \<Rightarrow> 'g gym \<Rightarrow> 'g TWGameEnv \<Rightarrow> action \<Rightarrow> error + (time_step \<times> 'g TWGameEnv)" where
  "step_env py_hash gm e action_ind =
     (if episode_ended e then reset_env gm e
      else
        (case state e of
           None \<Rightarrow> Inl TypeError
         | Some old_state \<Rightarrow>
        (let e1 = (if done_f old_state \<or> won old_state \<or> lost old_state
                   then e \<lparr> episode_ended := True \<rparr> else e)
         in case conv_to_cmd e1 action_ind of
              Inl err \<Rightarrow> Inl err
            | Inr cmd \<Rightarrow>
           (case curr_TWGym e1 of
              None \<Rightarrow> Inl AttributeError
            | Some g \<Rightarrow>
           (case gym_step gm g cmd of
              ((ob, sc, dn, nfo), g') \<Rightarrow>
                (let new_state = conv_to_state ob sc dn nfo;
                     e2 = e1 \<lparr> curr_TWGym := Some g', state := Some new_state \<rparr>;
                     e3 = update_hash_cache py_hash e2 new_state;
                     pass_state = conv_pass_state new_state
                 in case calc_reward e3 new_state old_state cmd of
                      Inl err \<Rightarrow> Inl err
                    | Inr reward \<Rightarrow>
                        Inr (if episode_ended e3 then Termination pass_state reward
                             else Transition pass_state reward, e3)))))))"

subsection \<open>Running several turns\<close>

text \<open>The cache after a sequence of turns: \<open>update_hash_cache\<close> applied to each new state
  in order, as successive calls of \<^verbatim>\<open>_step\<close> do.\<close>

definition feed :: "(string \<Rightarrow> int) \<Rightarrow> 'g TWGameEnv \<Rightarrow> game_state list \<Rightarrow> 'g TWGameEnv" where
  "feed py_hash e sts = foldl (update_hash_cache py_hash) e sts"

subsection \<open>Concrete inputs\<close>

text \<open>A state with the given description and inventory and neutral other fields, a
  fingerprint function and a list of states with pairwise distinct fingerprints, used to
  evaluate the model on concrete inputs.\<close>

definition ex_state :: "string \<Rightarrow> string \<Rightarrow> game_state" where
  "ex_state d i = \<lparr> score = 0, done_f = False, won = False, lost = False, obs = [],
                    description = d, inventory = i, admissible_commands = [], entities = [] \<rparr>"

definition ex_hash :: "string \<Rightarrow> int" where
  "ex_hash s = int (length s) + 1"

definition ex_states :: "nat \<Rightarrow> game_state list" where
  "ex_states n = map (\<lambda>k. ex_state (replicate k CHR ''a'') (replicate k CHR ''b'')) [0..<n]"

text \<open>What the constructor establishes about the word lists and no method changes: the
  flattened command list is present exactly in flattened mode and is built from the verb
  and object lists.\<close>

definition vocab_ok :: "'g TWGameEnv \<Rightarrow> bool" where
  "vocab_ok e \<longleftrightarrow>
     list_verbobj e =
       (if flatten_actspec e
        then Some (concat (map (\<lambda>v. map (\<lambda>obj. v @ '' '' @ obj) (list_obj e)) (list_verb e)))
        else None)"

text \<open>A game whose reply to a command echoes the command and counts the turns.\<close>

definition ex_gym :: "nat gym" where
  "ex_gym =
     \<lparr> gym_fresh = 0,
       gym_step = (\<lambda>g c. ((c, int g, False,
                     \<lparr> info_won = False, info_lost = False, info_description = c,
                       info_inventory = [], info_admissible_commands = [],
                       info_entities = [] \<rparr>), Suc g)) \<rparr>"

definition repeat_count :: "int list \<Rightarrow> int" where
  "repeat_count buf = int (count_list buf (last buf))"

definition plain_turn :: "'g TWGameEnv \<Rightarrow> game_state \<Rightarrow> string \<Rightarrow> bool" where
  "plain_turn e new_state cmd \<longleftrightarrow>
     (\<forall>b\<in>set (list_badact e). \<not> sublist b (obs new_state))
     \<and> hash_inv e \<noteq> [] \<and> hash_dsc e \<noteq> []
     \<and> (repeat_count (hash_inv e) \<le> 1 \<or> repeat_count (hash_dsc e) \<le> 1)
     \<and> (\<forall>adm\<in>set (admissible_commands new_state).
           \<not> sublist (py_slice_to cmd (py_find cmd CHR '' '')) adm)"

definition ex_env :: "nat TWGameEnv" where
  "ex_env = init_env [''go'', ''take''] [''EMPTY'', ''key''] [''nothing'', ''not''] False"

definition ex_old :: game_state where
  "ex_old = (ex_state ''hall'' ''empty'') \<lparr> score := 5 \<rparr>"

definition ex_new :: game_state where
  "ex_new = (ex_state ''room'' ''a key'')
              \<lparr> score := 8, obs := ''done'', admissible_commands := [''look'', ''open door''] \<rparr>"

text \<open>The cache invariant: both buffers have the length the constructor gives them.\<close>

definition cache_ok :: "'g TWGameEnv \<Rightarrow> bool" where
  "cache_ok e \<longleftrightarrow>
     length (hash_dsc e) = HASH_LIST_LENGTH \<and> length (hash_inv e) = HASH_LIST_LENGTH"

text \<open>The reward carried by the time step that a step returns.\<close>

fun reward_of :: "time_step \<Rightarrow> int option" where
  "reward_of (Restart _) = None"
| "reward_of (Transition _ r) = Some r"
| "reward_of (Termination _ r) = Some r"

text \<open>A game that answers every command with the same state, the run of the
  environment on it (a reset, then the action \<open>(0, 0)\<close> at every step), and a turn whose
  observation contains several bad-action strings.\<close>

definition ex_gym_still :: "nat gym" where
  "ex_gym_still =
     \<lparr> gym_fresh = 0,
       gym_step = (\<lambda>g c. ((''ok'', 0, False,
                     \<lparr> info_won = False, info_lost = False, info_description = ''room'',
                       info_inventory = ''key'', info_admissible_commands = [],
                       info_entities = [] \<rparr>), Suc g)) \<rparr>"

fun ex_steps :: "nat \<Rightarrow> error + (time_step \<times> nat TWGameEnv)" where
  "ex_steps 0 = reset_env ex_gym_still ex_env"
| "ex_steps (Suc n) =
     (case ex_steps n of
        Inl err \<Rightarrow> Inl err
      | Inr (ts, e) \<Rightarrow> step_env ex_hash ex_gym_still e (ActPair 0 0))"

definition ex_env_at :: "nat \<Rightarrow> nat TWGameEnv" where
  "ex_env_at n = (case ex_steps n of Inl err \<Rightarrow> ex_env | Inr (ts, e) \<Rightarrow> e)"

definition ex_ts_at :: "nat \<Rightarrow> time_step" where
  "ex_ts_at n = (case ex_steps n of Inl err \<Rightarrow> Restart ([], []) | Inr (ts, e) \<Rightarrow> ts)"

definition ex_still :: game_state where
  "ex_still = \<lparr> score = 0, done_f = False, won = False, lost = False, obs = ''ok'',
                 description = ''room'', inventory = ''key'', admissible_commands = [],
                 entities = [] \<rparr>"

definition ex_bad_new :: game_state where
  "ex_bad_new = ex_new \<lparr> obs := ''nothing, not a thing'' \<rparr>"

definition ex_bad_env :: "string list \<Rightarrow> nat TWGameEnv" where
  "ex_bad_env bs = (update_hash_cache ex_hash ex_env ex_bad_new) \<lparr> list_badact := bs \<rparr>"

section \<open>Basic facts\<close>

lemma py_in_sublist: "py_in s t = sublist s t"
  by (induction t) (simp_all add: sublist_Cons_right)

lemma update_hash_cache_length:
  "length (hash_dsc (update_hash_cache h e st)) = length (hash_dsc e)"
  "length (hash_inv (update_hash_cache h e st)) = length (hash_inv e)"
  by (simp_all add: update_hash_cache_def)

section \<open>The recent-history cache\<close>









section \<open>The command translator\<close>

lemma py_index_nat: "k < length xs \<Longrightarrow> py_index xs (int k) = Inr (xs ! k)"
  by (simp add: py_index_def)

lemma length_concat_product:
  "length (concat (map (\<lambda>v. map (f v) ys) xs)) = length xs * length ys"
  by (induction xs) simp_all

lemma nth_concat_product:
  "k < length xs * length ys \<Longrightarrow>
     concat (map (\<lambda>v. map (f v) ys) xs) ! k = f (xs ! (k div length ys)) (ys ! (k mod length ys))"
proof (induction xs arbitrary: k)
  case Nil
  then show ?case by simp
next
  case (Cons x xs)
  let ?n = "length ys"
  show ?case
  proof (cases "k < ?n")
    case True
    then show ?thesis by (simp add: nth_append)
  next
    case False
    then have ge: "?n \<le> k" by simp
    from Cons.prems have pos: "0 < ?n" by (cases "?n = 0") auto
    from Cons.prems ge have lt: "k - ?n < length xs * ?n" by simp
    from ge pos have dv: "k div ?n = Suc ((k - ?n) div ?n)"
      by (simp add: le_div_geq)
    from ge have md: "k mod ?n = (k - ?n) mod ?n"
      by (simp add: le_mod_geq)
    show ?thesis
      using False Cons.IH [OF lt] by (simp add: nth_append dv md)
  qed
qed





lemma vocab_ok_init: "vocab_ok (init_env vs os bs fl)"
  by (simp add: vocab_ok_def init_env_def)

lemma py_index_out_of_range:
  "int (length xs) \<le> i \<or> i < - int (length xs) \<Longrightarrow> py_index xs i = Inl IndexError"
  by (auto simp add: py_index_def)

lemma py_index_error: "py_index xs i = Inl err \<Longrightarrow> err = IndexError"
  by (auto simp add: py_index_def split: if_splits)

lemma py_index_negative:
  "- int (length xs) \<le> i \<Longrightarrow> i < 0 \<Longrightarrow> py_index xs i = py_index xs (i + int (length xs))"
  by (simp add: py_index_def add.commute)

lemma conv_to_cmd_episode_ended [simp]:
  "conv_to_cmd (e \<lparr> episode_ended := b \<rparr>) a = conv_to_cmd e a"
  by (cases a) (simp_all add: conv_to_cmd_def split: sum.splits)

lemma step_env_cmd_error:
  assumes "\<not> episode_ended e" "state e = Some st" "conv_to_cmd e a = Inl err"
  shows "step_env h gm e a = Inl err"
  using assms by (simp add: step_env_def Let_def)

text \<open>
  Claim C4 as stated fails: with the verbs \<open>go, take\<close> in unflattened mode the action
  \<open>(0, 0)\<close> yields \<open>go\<close> followed by a space, which is not the bare verb \<open>go\<close>. The
  command is always built as verb, space, object, and for object index 0 the object is the
  empty string.
\<close>

theorem unflattened_no_object_counterexample:
  "conv_to_cmd (init_env [''go'', ''take''] [''EMPTY'', ''key''] [] False :: unit TWGameEnv)
     (ActPair 0 0) = Inr ''go ''
   \<and> [''go'', ''take''] ! 0 = ''go''
   \<and> ''go '' \<noteq> ''go''"
  by (simp add: conv_to_cmd_def init_env_def py_index_def)

text \<open>
  Claim C4, amended. In unflattened mode, for every valid verb index \<open>v\<close> the action
  \<open>(v, 0)\<close> yields \<open>verbs[v]\<close> followed by one trailing space and no object token, and
  for every object index \<open>k\<close> with \<open>1 \<le> k < |objects|\<close> the action \<open>(v, k)\<close> yields
  \<open>verbs[v]\<close>, a space, \<open>objects[k]\<close>.
\<close>

theorem unflattened_translation:
  assumes "\<not> flatten_actspec e" and "v < length (list_verb e)"
  shows "conv_to_cmd e (ActPair (int v) 0) = Inr (list_verb e ! v @ '' '')
       \<and> (1 \<le> k \<and> k < length (list_obj e) \<longrightarrow>
            conv_to_cmd e (ActPair (int v) (int k)) = Inr (list_verb e ! v @ '' '' @ list_obj e ! k))"
  using assms by (simp add: conv_to_cmd_def py_index_nat)

theorem unflattened_translation_witness:
  "\<not> flatten_actspec (init_env [''go'', ''take''] [''EMPTY'', ''key''] [] False :: unit TWGameEnv)
   \<and> (1::nat) < length (list_verb (init_env [''go'', ''take''] [''EMPTY'', ''key''] [] False :: unit TWGameEnv))
   \<and> (1::nat) \<le> 1
   \<and> (1::nat) < length (list_obj (init_env [''go'', ''take''] [''EMPTY'', ''key''] [] False :: unit TWGameEnv))
   \<and> conv_to_cmd (init_env [''go'', ''take''] [''EMPTY'', ''key''] [] False :: unit TWGameEnv)
        (ActPair 1 0) = Inr ''take ''
   \<and> conv_to_cmd (init_env [''go'', ''take''] [''EMPTY'', ''key''] [] False :: unit TWGameEnv)
        (ActPair 1 1) = Inr ''take key''"
proof -
  let ?e = "init_env [''go'', ''take''] [''EMPTY'', ''key''] [] False :: unit TWGameEnv"
  have h: "\<not> flatten_actspec ?e" "(1::nat) < length (list_verb ?e)"
    "(1::nat) \<le> 1 \<and> (1::nat) < length (list_obj ?e)"
    by (simp_all add: init_env_def)
  from unflattened_translation [OF h(1,2), of 1] h(3)
  have "conv_to_cmd ?e (ActPair (int 1) 0) = Inr (list_verb ?e ! 1 @ '' '')"
    "conv_to_cmd ?e (ActPair (int 1) (int 1)) = Inr (list_verb ?e ! 1 @ '' '' @ list_obj ?e ! 1)"
    by blast+
  then have "conv_to_cmd ?e (ActPair 1 0) = Inr ''take ''"
    "conv_to_cmd ?e (ActPair 1 1) = Inr ''take key''"
    by (simp_all add: init_env_def)
  with h show ?thesis
    by simp
qed

text \<open>
  Claim C5 as stated fails: in flattened mode with two verbs and two objects the index
  \<open>-1\<close> lies outside \<open>[0, 3]\<close>, yet it is not rejected. List indexing reads it from the
  end of the list and the last command is returned.
\<close>

theorem translate_out_of_range_counterexample:
  "\<not> (0 \<le> (-1::int) \<and> (-1::int) \<le> int (length [''go'', ''take''] * length [''EMPTY'', ''key'']) - 1)
   \<and> conv_to_cmd (init_env [''go'', ''take''] [''EMPTY'', ''key''] [] True :: unit TWGameEnv)
        (ActIdx (-1)) = Inr ''take key''"
  by (simp add: conv_to_cmd_def init_env_def py_index_def)

lemma py_index_from_end:
  "- int (length xs) \<le> i \<Longrightarrow> i < 0 \<Longrightarrow> py_index xs i = Inr (xs ! nat (i + int (length xs)))"
  by (simp add: py_index_def add.commute)

text \<open>
  Claim C5, amended. In flattened mode every index \<open>i\<close> with \<open>i \<ge> |verbs| * |objects|\<close> or
  \<open>i < - |verbs| * |objects|\<close> raises IndexError. In unflattened mode a verb index \<open>a0\<close>
  with \<open>a0 \<ge> |verbs|\<close> or \<open>a0 < - |verbs|\<close> raises IndexError, and so does a non-zero
  object index \<open>a1\<close> with \<open>a1 \<ge> |objects|\<close> or \<open>a1 < - |objects|\<close> (an error of the verb
  lookup comes first). So every non-negative index out of bounds fails. The failure is not
  caught by the step function: it is the result of the step. A negative index within the
  length of its list is not rejected but read from the end: the flattened index \<open>i\<close> yields
  the command of index \<open>i + |verbs| * |objects|\<close>, the verb index \<open>a0\<close> yields the verb
  \<open>a0 + |verbs|\<close>, and the object index \<open>a1\<close> yields the object word \<open>a1 + |objects|\<close>; for
  \<open>a1 = - |objects|\<close> that is the word in slot 0 itself, not the empty object of index 0.
\<close>

theorem translate_out_of_range:
  fixes e :: "'g TWGameEnv"
  assumes "vocab_ok e"
    and "n = int (length (list_verb e) * length (list_obj e))"
    and "nv = int (length (list_verb e))"
    and "no = int (length (list_obj e))"
  shows "(flatten_actspec e \<and> (n \<le> i \<or> i < - n)
            \<longrightarrow> conv_to_cmd e (ActIdx i) = Inl IndexError)
       \<and> (flatten_actspec e \<and> - n \<le> i \<and> i < 0
            \<longrightarrow> conv_to_cmd e (ActIdx i) = conv_to_cmd e (ActIdx (i + n)))
       \<and> (\<not> flatten_actspec e \<and> (nv \<le> a0 \<or> a0 < - nv)
            \<longrightarrow> conv_to_cmd e (ActPair a0 a1) = Inl IndexError)
       \<and> (\<not> flatten_actspec e \<and> a1 \<noteq> 0 \<and> (no \<le> a1 \<or> a1 < - no)
            \<longrightarrow> conv_to_cmd e (ActPair a0 a1) = Inl IndexError)
       \<and> (\<not> episode_ended e \<and> state e = Some st \<and> conv_to_cmd e a = Inl IndexError
            \<longrightarrow> step_env h gm e a = Inl IndexError)
       \<and> (flatten_actspec e \<and> - n \<le> i \<and> i < 0
            \<longrightarrow> conv_to_cmd e (ActIdx i)
                = Inr (list_verb e ! (nat (i + n) div length (list_obj e)) @ '' '' @
                       list_obj e ! (nat (i + n) mod length (list_obj e))))
       \<and> (\<not> flatten_actspec e \<and> - nv \<le> a0 \<and> a0 < 0
            \<longrightarrow> conv_to_cmd e (ActPair a0 a1) = conv_to_cmd e (ActPair (a0 + nv) a1)
              \<and> conv_to_cmd e (ActPair a0 0) = Inr (list_verb e ! nat (a0 + nv) @ '' ''))
       \<and> (\<not> flatten_actspec e \<and> - no \<le> a1 \<and> a1 < 0
            \<longrightarrow> conv_to_cmd e (ActPair a0 a1)
                = (case py_index (list_verb e) a0 of
                     Inl err \<Rightarrow> Inl err
                   | Inr verb \<Rightarrow> Inr (verb @ '' '' @ list_obj e ! nat (a1 + no))))
       \<and> (\<not> flatten_actspec e \<and> - no \<le> a1 \<and> a1 < 0 \<and> - nv \<le> a0 \<and> a0 < nv
            \<longrightarrow> conv_to_cmd e (ActPair a0 a1)
                = Inr (list_verb e ! nat (if a0 < 0 then a0 + nv else a0) @ '' '' @
                       list_obj e ! nat (a1 + no)))"
proof -
  let ?L = "concat (map (\<lambda>v. map (\<lambda>obj. v @ '' '' @ obj) (list_obj e)) (list_verb e))"
  have len: "int (length ?L) = n"
    using assms(2) by (simp only: length_concat_product)
  have flat: "conv_to_cmd e (ActIdx j) = py_index ?L j" if "flatten_actspec e" for j
    using that assms(1) by (simp add: conv_to_cmd_def vocab_ok_def)
  have c1: "conv_to_cmd e (ActIdx i) = Inl IndexError"
    if "flatten_actspec e" "n \<le> i \<or> i < - n"
    using that flat py_index_out_of_range [of ?L i] len by simp
  have c2: "conv_to_cmd e (ActIdx i) = conv_to_cmd e (ActIdx (i + n))"
    if "flatten_actspec e" "- n \<le> i" "i < 0"
    using that flat py_index_negative [of ?L i] len by simp
  have c3: "conv_to_cmd e (ActPair a0 a1) = Inl IndexError"
    if "\<not> flatten_actspec e" "nv \<le> a0 \<or> a0 < - nv" for a1
    using that py_index_out_of_range [of "list_verb e" a0] assms(3)
    by (simp add: conv_to_cmd_def)
  have c4: "conv_to_cmd e (ActPair a0 a1) = Inl IndexError"
    if "\<not> flatten_actspec e" "a1 \<noteq> 0" "no \<le> a1 \<or> a1 < - no"
    using that py_index_out_of_range [of "list_obj e" a1] assms(4)
    by (auto simp add: conv_to_cmd_def split: sum.splits dest: py_index_error)
  have c5: "step_env h gm e a = Inl IndexError"
    if "\<not> episode_ended e" "state e = Some st" "conv_to_cmd e a = Inl IndexError"
    using that by (rule step_env_cmd_error)
  have c6: "conv_to_cmd e (ActIdx i)
                = Inr (list_verb e ! (nat (i + n) div length (list_obj e)) @ '' '' @
                       list_obj e ! (nat (i + n) mod length (list_obj e)))"
    if "flatten_actspec e" "- n \<le> i" "i < 0"
  proof -
    have k: "nat (i + n) < length (list_verb e) * length (list_obj e)"
      using that assms(2) by linarith
    have "conv_to_cmd e (ActIdx i) = Inr (?L ! nat (i + n))"
      using that flat py_index_from_end [of ?L i] len by simp
    also have "?L ! nat (i + n) = list_verb e ! (nat (i + n) div length (list_obj e)) @ '' '' @
                       list_obj e ! (nat (i + n) mod length (list_obj e))"
      using k by (rule nth_concat_product)
    finally show ?thesis .
  qed
  have vneg: "py_index (list_verb e) a0 = Inr (list_verb e ! nat (a0 + nv))"
    "py_index (list_verb e) (a0 + nv) = Inr (list_verb e ! nat (a0 + nv))"
    if "- nv \<le> a0" "a0 < 0"
    using that assms(3) py_index_from_end [of "list_verb e" a0]
    by (simp_all add: py_index_def)
  have c7: "conv_to_cmd e (ActPair a0 a1) = conv_to_cmd e (ActPair (a0 + nv) a1)
              \<and> conv_to_cmd e (ActPair a0 0) = Inr (list_verb e ! nat (a0 + nv) @ '' '')"
    if "\<not> flatten_actspec e" "- nv \<le> a0" "a0 < 0"
    using that vneg by (simp add: conv_to_cmd_def)
  have oneg: "py_index (list_obj e) a1 = Inr (list_obj e ! nat (a1 + no))"
    if "- no \<le> a1" "a1 < 0"
    using that assms(4) py_index_from_end [of "list_obj e" a1] by simp
  have c8: "conv_to_cmd e (ActPair a0 a1)
                = (case py_index (list_verb e) a0 of
                     Inl err \<Rightarrow> Inl err
                   | Inr verb \<Rightarrow> Inr (verb @ '' '' @ list_obj e ! nat (a1 + no)))"
    if "\<not> flatten_actspec e" "- no \<le> a1" "a1 < 0"
    using that oneg by (simp add: conv_to_cmd_def split: sum.splits)
  have c9: "conv_to_cmd e (ActPair a0 a1)
                = Inr (list_verb e ! nat (if a0 < 0 then a0 + nv else a0) @ '' '' @
                       list_obj e ! nat (a1 + no))"
    if "\<not> flatten_actspec e" "- no \<le> a1" "a1 < 0" "- nv \<le> a0" "a0 < nv"
  proof -
    have "py_index (list_verb e) a0 = Inr (list_verb e ! nat (if a0 < 0 then a0 + nv else a0))"
      using that(4,5) assms(3) by (simp add: py_index_def add.commute)
    with c8 [OF that(1-3)] show ?thesis
      by simp
  qed
  from c1 c2 c3 c4 c5 c6 c7 c8 c9 show ?thesis
    by blast
qed

theorem translate_out_of_range_witness:
  "vocab_ok (init_env [''go'', ''take''] [''EMPTY'', ''key''] [] True :: nat TWGameEnv)
   \<and> conv_to_cmd (init_env [''go'', ''take''] [''EMPTY'', ''key''] [] True :: nat TWGameEnv)
        (ActIdx 4) = Inl IndexError
   \<and> conv_to_cmd (init_env [''go'', ''take''] [''EMPTY'', ''key''] [] True :: nat TWGameEnv)
        (ActIdx (-5)) = Inl IndexError
   \<and> conv_to_cmd (init_env [''go'', ''take''] [''EMPTY'', ''key''] [] False :: nat TWGameEnv)
        (ActPair 2 0) = Inl IndexError
   \<and> conv_to_cmd (init_env [''go'', ''take''] [''EMPTY'', ''key''] [] False :: nat TWGameEnv)
        (ActPair 0 2) = Inl IndexError
   \<and> step_env ex_hash ex_gym
        ((init_env [''go'', ''take''] [''EMPTY'', ''key''] [] True)
           \<lparr> state := Some (ex_state [] []) \<rparr>) (ActIdx 4) = Inl IndexError
   \<and> conv_to_cmd (init_env [''go'', ''take''] [''EMPTY'', ''key''] [] True :: nat TWGameEnv)
        (ActIdx (-3)) = Inr ''go key''
   \<and> conv_to_cmd (init_env [''go'', ''take''] [''EMPTY'', ''key''] [] False :: nat TWGameEnv)
        (ActPair (-1) 0) = Inr ''take ''
   \<and> conv_to_cmd (init_env [''go'', ''take''] [''EMPTY'', ''key''] [] False :: nat TWGameEnv)
        (ActPair 0 (-2)) = Inr ''go EMPTY''
   \<and> conv_to_cmd (init_env [''go'', ''take''] [''EMPTY'', ''key''] [] False :: nat TWGameEnv)
        (ActPair (-2) (-1)) = Inr ''go key''"
proof -
  let ?f = "init_env [''go'', ''take''] [''EMPTY'', ''key''] [] True :: nat TWGameEnv"
  let ?u = "init_env [''go'', ''take''] [''EMPTY'', ''key''] [] False :: nat TWGameEnv"
  let ?s = "?f \<lparr> state := Some (ex_state [] []) \<rparr>"
  have ok: "vocab_ok ?f" "vocab_ok ?u" "vocab_ok ?s"
    by (simp_all add: vocab_ok_def init_env_def)
  have fl: "flatten_actspec ?f" "\<not> flatten_actspec ?u" "flatten_actspec ?s"
    "\<not> episode_ended ?s" "state ?s = Some (ex_state [] [])"
    by (simp_all add: init_env_def)
  have sz: "int (length (list_verb ?f) * length (list_obj ?f)) = 4"
    "int (length (list_verb ?u)) = 2" "int (length (list_obj ?u)) = 2"
    "int (length (list_verb ?s) * length (list_obj ?s)) = 4"
    by (simp_all add: init_env_def)
  have vals: "list_verb ?f ! (nat (- 3 + 4) div length (list_obj ?f)) @ '' '' @
                list_obj ?f ! (nat (- 3 + 4) mod length (list_obj ?f)) = ''go key''"
    "list_verb ?u ! nat (- 1 + 2) @ '' '' = ''take ''"
    "list_verb ?u ! nat (if (0::int) < 0 then 0 + 2 else 0) @ '' '' @ list_obj ?u ! nat (- 2 + 2)
       = ''go EMPTY''"
    "list_verb ?u ! nat (if (- 2::int) < 0 then - 2 + 2 else - 2) @ '' '' @ list_obj ?u ! nat (- 1 + 2)
       = ''go key''"
    by (simp_all add: init_env_def)
  have a: "conv_to_cmd ?f (ActIdx 4) = Inl IndexError"
    using translate_out_of_range [OF ok(1) refl refl refl, where i = 4] fl(1) sz(1) by simp
  have b: "conv_to_cmd ?f (ActIdx (-5)) = Inl IndexError"
    using translate_out_of_range [OF ok(1) refl refl refl, where i = "-5"] fl(1) sz(1) by simp
  have c: "conv_to_cmd ?u (ActPair 2 0) = Inl IndexError"
    using translate_out_of_range [OF ok(2) refl refl refl, where ?a0.0 = 2 and ?a1.0 = 0]
      fl(2) sz(2) by simp
  have d: "conv_to_cmd ?u (ActPair 0 2) = Inl IndexError"
    using translate_out_of_range [OF ok(2) refl refl refl, where ?a0.0 = 0 and ?a1.0 = 2]
      fl(2) sz(3) by simp
  have e': "conv_to_cmd ?s (ActIdx 4) = Inl IndexError"
    using translate_out_of_range [OF ok(3) refl refl refl, where i = 4] fl(3) sz(4) by simp
  have f: "step_env ex_hash ex_gym ?s (ActIdx 4) = Inl IndexError"
    using translate_out_of_range [OF ok(3) refl refl refl,
        where st = "ex_state [] []" and a = "ActIdx 4" and h = ex_hash and gm = ex_gym]
      fl(4,5) e'
    by blast
  have ar: "- (4::int) \<le> - 3" "(- 3::int) < 0" "- (2::int) \<le> - 1" "(- 1::int) < 0"
    "- (2::int) \<le> - 2" "(- 2::int) < 0" "- (2::int) \<le> 0" "(0::int) < 2" "(- 2::int) < 2"
    by simp_all
  have g: "conv_to_cmd ?f (ActIdx (- 3)) = Inr ''go key''"
  proof -
    from translate_out_of_range [OF ok(1) sz(1) [symmetric] refl refl, where i = "- 3"] fl(1) ar
    have "conv_to_cmd ?f (ActIdx (- 3))
            = Inr (list_verb ?f ! (nat (- 3 + 4) div length (list_obj ?f)) @ '' '' @
                list_obj ?f ! (nat (- 3 + 4) mod length (list_obj ?f)))"
      by blast
    then show ?thesis
      by (simp only: vals)
  qed
  have h: "conv_to_cmd ?u (ActPair (- 1) 0) = Inr ''take ''"
  proof -
    from translate_out_of_range [OF ok(2) refl sz(2) [symmetric] sz(3) [symmetric],
        where ?a0.0 = "- 1"] fl(2) ar
    have "conv_to_cmd ?u (ActPair (- 1) 0) = Inr (list_verb ?u ! nat (- 1 + 2) @ '' '')"
      by blast
    then show ?thesis
      by (simp only: vals)
  qed
  have i: "conv_to_cmd ?u (ActPair 0 (- 2)) = Inr ''go EMPTY''"
  proof -
    from translate_out_of_range [OF ok(2) refl sz(2) [symmetric] sz(3) [symmetric],
        where ?a0.0 = 0 and ?a1.0 = "- 2"] fl(2) ar
    have "conv_to_cmd ?u (ActPair 0 (- 2))
            = Inr (list_verb ?u ! nat (if (0::int) < 0 then 0 + 2 else 0) @ '' '' @
                list_obj ?u ! nat (- 2 + 2))"
      by blast
    then show ?thesis
      by (simp only: vals)
  qed
  have j: "conv_to_cmd ?u (ActPair (- 2) (- 1)) = Inr ''go key''"
  proof -
    from translate_out_of_range [OF ok(2) refl sz(2) [symmetric] sz(3) [symmetric],
        where ?a0.0 = "- 2" and ?a1.0 = "- 1"] fl(2) ar
    have "conv_to_cmd ?u (ActPair (- 2) (- 1))
            = Inr (list_verb ?u ! nat (if (- 2::int) < 0 then - 2 + 2 else - 2) @ '' '' @
                list_obj ?u ! nat (- 1 + 2))"
      by blast
    then show ?thesis
      by (simp only: vals)
  qed
  from ok(1) a b c d f g h i j show ?thesis
    by simp
qed

section \<open>The reward\<close>

lemma count_list_filter: "count_list xs y = length (filter (\<lambda>x. x = y) xs)"
  by (induction xs) simp_all

lemma py_index_last: "xs \<noteq> [] \<Longrightarrow> py_index xs (- 1) = Inr (last xs)"
  by (cases xs rule: rev_cases) (simp_all add: py_index_def nth_append)

lemma calc_cache_changes_nonempty:
  "cache \<noteq> [] \<Longrightarrow> calc_cache_changes cache = Inr (repeat_count cache)"
  by (simp add: calc_cache_changes_def py_index_last repeat_count_def count_list_filter)

lemma calc_cache_changes_empty: "calc_cache_changes [] = Inl IndexError"
  by (simp add: calc_cache_changes_def py_index_def)

lemma repeat_count_ge_1: "buf \<noteq> [] \<Longrightarrow> 1 \<le> repeat_count buf"
proof -
  assume "buf \<noteq> []"
  then have "last buf \<in> set buf" by simp
  then have "count_list buf (last buf) \<noteq> 0"
    by (simp only: count_list_0_iff not_not)
  then show ?thesis by (simp add: repeat_count_def)
qed

lemma filter_nonempty_iff: "length (filter P xs) \<noteq> 0 \<longleftrightarrow> (\<exists>x\<in>set xs. P x)"
  by (simp add: filter_empty_conv)

lemma find_verb_in_list_iff:
  "find_verb_in_list verb_str adm_cmd \<longleftrightarrow> (\<exists>adm\<in>set adm_cmd. sublist verb_str adm)"
proof -
  have py: "py_in verb_str = sublist verb_str"
    by (rule ext) (rule py_in_sublist)
  have "find_verb_in_list verb_str adm_cmd = (filter (sublist verb_str) adm_cmd \<noteq> [])"
    by (cases "filter (sublist verb_str) adm_cmd")
      (simp_all add: find_verb_in_list_def Let_def py)
  then show ?thesis
    by (simp add: filter_empty_conv)
qed

lemma calc_reward_closed:
  "calc_reward e new_state old_state cmd =
     (if hash_inv e = [] \<or> hash_dsc e = [] then Inl IndexError
      else Inr (score new_state - score old_state
          - (if \<exists>b\<in>set (list_badact e). sublist b (obs new_state) then 1 else 0)
          + (if repeat_count (hash_inv e) \<le> 1 \<or> repeat_count (hash_dsc e) \<le> 1 then 1
             else - min (repeat_count (hash_inv e) - 1) (min (repeat_count (hash_dsc e) - 1) 5))
          + (if won new_state then 100 else if lost new_state then - 100 else 0)
          + (if \<exists>adm\<in>set (admissible_commands new_state).
                  sublist (py_slice_to cmd (py_find cmd CHR '' '')) adm then 1 else 0)))"
proof (cases "hash_inv e = []")
  case True
  then show ?thesis
    by (simp add: calc_reward_def calc_cache_changes_empty)
next
  case inv: False
  show ?thesis
  proof (cases "hash_dsc e = []")
    case True
    with inv show ?thesis
      by (simp add: calc_reward_def calc_cache_changes_empty calc_cache_changes_nonempty)
  next
    case False
    with inv show ?thesis
      by (simp add: calc_reward_def calc_cache_changes_nonempty Let_def REWARD_DICT_def
          filter_empty_conv find_verb_in_list_iff py_in_sublist)
  qed
qed

lemma ex_turn:
  "plain_turn (update_hash_cache ex_hash ex_env ex_new) ex_new ''go ''"
  "score ex_old = 5" "score ex_new = 8" "\<not> won ex_new" "\<not> lost ex_new"
  by code_simp+

text \<open>
  Claim C8. The reward contains the addend \<open>score new_state - score old_state\<close>: it is the
  reward of the same turn with both scores set to 0, plus the score difference (and it
  fails exactly when that one fails). On a turn with no bad-action match, a novel
  description or inventory, no win, no loss and a verb that matches no admissible command,
  the reward is the score difference plus \<open>change_reward = 1\<close>; for the scores 5 and 8 it
  is exactly 4.
\<close>

theorem score_delta_term:
  "calc_reward e new_state old_state cmd
     = map_sum id (\<lambda>r. r + (score new_state - score old_state))
         (calc_reward e (new_state \<lparr> score := 0 \<rparr>) (old_state \<lparr> score := 0 \<rparr>) cmd)
   \<and> change_reward REWARD_DICT = 1
   \<and> (plain_turn e new_state cmd \<and> \<not> won new_state \<and> \<not> lost new_state \<longrightarrow>
        calc_reward e new_state old_state cmd
          = Inr (score new_state - score old_state + change_reward REWARD_DICT))
   \<and> (plain_turn e new_state cmd \<and> \<not> won new_state \<and> \<not> lost new_state
        \<and> score old_state = 5 \<and> score new_state = 8 \<longrightarrow>
        calc_reward e new_state old_state cmd = Inr 4)"
  by (simp add: calc_reward_closed plain_turn_def REWARD_DICT_def)

theorem score_delta_term_witness:
  "\<not> won ex_new \<and> \<not> lost ex_new \<and> score ex_old = 5 \<and> score ex_new = 8
   \<and> obs ex_new = ''done'' \<and> \<not> sublist ''nothing'' ''done'' \<and> \<not> sublist ''not'' ''done''
   \<and> hash_inv (update_hash_cache ex_hash ex_env ex_new) = [0, 0, 0, 0, 0, 0, 0, 0, 0, 6]
   \<and> hash_dsc (update_hash_cache ex_hash ex_env ex_new) = [0, 0, 0, 0, 0, 0, 0, 0, 0, 5]
   \<and> admissible_commands ex_new = [''look'', ''open door'']
   \<and> py_slice_to ''go '' (py_find ''go '' CHR '' '') = ''go''
   \<and> \<not> sublist ''go'' ''look'' \<and> \<not> sublist ''go'' ''open door''
   \<and> calc_reward (update_hash_cache ex_hash ex_env ex_new) ex_new ex_old ''go '' = Inr 4"
proof -
  have x: "obs ex_new = ''done''" "\<not> sublist ''nothing'' ''done''" "\<not> sublist ''not'' ''done''"
    "hash_inv (update_hash_cache ex_hash ex_env ex_new) = [0, 0, 0, 0, 0, 0, 0, 0, 0, 6]"
    "hash_dsc (update_hash_cache ex_hash ex_env ex_new) = [0, 0, 0, 0, 0, 0, 0, 0, 0, 5]"
    "admissible_commands ex_new = [''look'', ''open door'']"
    "py_slice_to ''go '' (py_find ''go '' CHR '' '') = ''go''"
    "\<not> sublist ''go'' ''look''" "\<not> sublist ''go'' ''open door''"
    by code_simp+
  from score_delta_term [of "update_hash_cache ex_hash ex_env ex_new" ex_new ex_old "''go ''"]
    ex_turn
  have "calc_reward (update_hash_cache ex_hash ex_env ex_new) ex_new ex_old ''go '' = Inr 4"
    by blast
  with ex_turn(2-5) x show ?thesis
    by blast
qed

text \<open>
  Claim C9. The reward is the reward of the same turn with \<open>won\<close> and \<open>lost\<close> cleared,
  plus \<open>win_lose_value = 100\<close> when the new state is won, minus it when the new state is
  not won but lost, and unchanged otherwise. On the otherwise neutral turn with the scores
  5 and 8 a win gives exactly 104 (and a loss -96): nothing else is added on the terminal
  path.
\<close>

theorem terminal_term:
  "calc_reward e new_state old_state cmd
     = map_sum id
         (\<lambda>r. r + (if won new_state then win_lose_value REWARD_DICT
                   else if lost new_state then - win_lose_value REWARD_DICT else 0))
         (calc_reward e (new_state \<lparr> won := False, lost := False \<rparr>) old_state cmd)
   \<and> win_lose_value REWARD_DICT = 100
   \<and> (plain_turn e new_state cmd \<and> won new_state
        \<and> score old_state = 5 \<and> score new_state = 8 \<longrightarrow>
        calc_reward e new_state old_state cmd = Inr 104)
   \<and> (plain_turn e new_state cmd \<and> \<not> won new_state \<and> lost new_state
        \<and> score old_state = 5 \<and> score new_state = 8 \<longrightarrow>
        calc_reward e new_state old_state cmd = Inr (- 96))"
  by (simp add: calc_reward_closed plain_turn_def REWARD_DICT_def)

lemma ex_turn_won:
  "plain_turn (update_hash_cache ex_hash ex_env (ex_new \<lparr> won := True \<rparr>))
     (ex_new \<lparr> won := True \<rparr>) ''go ''"
  "won (ex_new \<lparr> won := True \<rparr>)" "score (ex_new \<lparr> won := True \<rparr>) = 8"
  by code_simp+

theorem terminal_term_witness:
  "won (ex_new \<lparr> won := True \<rparr>) \<and> score ex_old = 5 \<and> score (ex_new \<lparr> won := True \<rparr>) = 8
   \<and> obs (ex_new \<lparr> won := True \<rparr>) = ''done''
   \<and> \<not> sublist ''nothing'' ''done'' \<and> \<not> sublist ''not'' ''done''
   \<and> hash_inv (update_hash_cache ex_hash ex_env (ex_new \<lparr> won := True \<rparr>))
       = [0, 0, 0, 0, 0, 0, 0, 0, 0, 6]
   \<and> admissible_commands (ex_new \<lparr> won := True \<rparr>) = [''look'', ''open door'']
   \<and> py_slice_to ''go '' (py_find ''go '' CHR '' '') = ''go''
   \<and> \<not> sublist ''go'' ''look'' \<and> \<not> sublist ''go'' ''open door''
   \<and> calc_reward (update_hash_cache ex_hash ex_env (ex_new \<lparr> won := True \<rparr>))
        (ex_new \<lparr> won := True \<rparr>) ex_old ''go '' = Inr 104"
proof -
  have x: "obs (ex_new \<lparr> won := True \<rparr>) = ''done''"
    "\<not> sublist ''nothing'' ''done''" "\<not> sublist ''not'' ''done''"
    "hash_inv (update_hash_cache ex_hash ex_env (ex_new \<lparr> won := True \<rparr>))
       = [0, 0, 0, 0, 0, 0, 0, 0, 0, 6]"
    "admissible_commands (ex_new \<lparr> won := True \<rparr>) = [''look'', ''open door'']"
    "py_slice_to ''go '' (py_find ''go '' CHR '' '') = ''go''"
    "\<not> sublist ''go'' ''look''" "\<not> sublist ''go'' ''open door''"
    by code_simp+
  from terminal_term [of "update_hash_cache ex_hash ex_env (ex_new \<lparr> won := True \<rparr>)"
      "ex_new \<lparr> won := True \<rparr>" ex_old "''go ''"]
    ex_turn_won ex_turn(2)
  have "calc_reward (update_hash_cache ex_hash ex_env (ex_new \<lparr> won := True \<rparr>))
          (ex_new \<lparr> won := True \<rparr>) ex_old ''go '' = Inr 104"
    by blast
  with ex_turn_won(2,3) ex_turn(2) x show ?thesis
    by blast
qed

text \<open>
  Claim C7. The reward is the reward of the same turn with an empty bad-action list,
  minus \<open>useless_act_pun = 1\<close> when at least one bad-action string is a substring of the
  observation text and minus nothing otherwise. The deduction does not depend on how many
  strings match: two bad-action lists that both have a match give the same reward. With
  non-empty buffers, as in every reachable state, a reward is returned: it is the reward
  \<open>r0\<close> returned for the empty bad-action list minus the penalty, so a list with a match
  gives exactly 1 less than a list without a match.
\<close>

theorem bad_action_penalty:
  "calc_reward e new_state old_state cmd
     = map_sum id
         (\<lambda>r. r - (if \<exists>b\<in>set (list_badact e). sublist b (obs new_state)
                   then useless_act_pun REWARD_DICT else 0))
         (calc_reward (e \<lparr> list_badact := [] \<rparr>) new_state old_state cmd)
   \<and> useless_act_pun REWARD_DICT = 1
   \<and> ((\<exists>b\<in>set bs1. sublist b (obs new_state)) \<and> (\<exists>b\<in>set bs2. sublist b (obs new_state)) \<longrightarrow>
        calc_reward (e \<lparr> list_badact := bs1 \<rparr>) new_state old_state cmd
          = calc_reward (e \<lparr> list_badact := bs2 \<rparr>) new_state old_state cmd)
   \<and> (hash_inv e \<noteq> [] \<and> hash_dsc e \<noteq> [] \<longrightarrow>
        (\<exists>r0. calc_reward (e \<lparr> list_badact := [] \<rparr>) new_state old_state cmd = Inr r0
           \<and> calc_reward e new_state old_state cmd
               = Inr (r0 - (if \<exists>b\<in>set (list_badact e). sublist b (obs new_state)
                            then useless_act_pun REWARD_DICT else 0))))
   \<and> (hash_inv e \<noteq> [] \<and> hash_dsc e \<noteq> [] \<and> (\<exists>b\<in>set bs1. sublist b (obs new_state))
        \<and> (\<forall>b\<in>set bs2. \<not> sublist b (obs new_state)) \<longrightarrow>
        (\<exists>r0. calc_reward (e \<lparr> list_badact := bs2 \<rparr>) new_state old_state cmd = Inr r0
           \<and> calc_reward (e \<lparr> list_badact := bs1 \<rparr>) new_state old_state cmd = Inr (r0 - 1)))"
  by (simp add: calc_reward_closed REWARD_DICT_def)

lemma ex_bad_facts:
  "hash_inv (ex_bad_env [''nothing'']) \<noteq> []" "hash_dsc (ex_bad_env [''nothing'']) \<noteq> []"
  "hash_inv (ex_bad_env [''nothing'', ''not'', ''thing'']) \<noteq> []"
  "hash_dsc (ex_bad_env [''nothing'', ''not'', ''thing'']) \<noteq> []"
  "obs ex_bad_new = ''nothing, not a thing''"
  "sublist ''nothing'' ''nothing, not a thing''"
  "sublist ''not'' ''nothing, not a thing''"
  "sublist ''thing'' ''nothing, not a thing''"
  "\<not> sublist ''xyz'' ''nothing, not a thing''"
  "calc_reward (ex_bad_env [''xyz'']) ex_bad_new ex_old ''go '' = Inr 4"
  by code_simp+

theorem bad_action_penalty_witness:
  "hash_inv (ex_bad_env [''nothing'']) \<noteq> [] \<and> hash_dsc (ex_bad_env [''nothing'']) \<noteq> []
   \<and> hash_inv (ex_bad_env [''nothing'', ''not'', ''thing'']) \<noteq> []
   \<and> hash_dsc (ex_bad_env [''nothing'', ''not'', ''thing'']) \<noteq> []
   \<and> obs ex_bad_new = ''nothing, not a thing''
   \<and> sublist ''nothing'' ''nothing, not a thing''
   \<and> sublist ''not'' ''nothing, not a thing''
   \<and> sublist ''thing'' ''nothing, not a thing''
   \<and> \<not> sublist ''xyz'' ''nothing, not a thing''
   \<and> calc_reward (ex_bad_env [''xyz'']) ex_bad_new ex_old ''go '' = Inr 4
   \<and> calc_reward (ex_bad_env [''nothing'']) ex_bad_new ex_old ''go '' = Inr 3
   \<and> calc_reward (ex_bad_env [''nothing'', ''not'', ''thing'']) ex_bad_new ex_old ''go '' = Inr 3"
proof -
  let ?e = "update_hash_cache ex_hash ex_env ex_bad_new"
  have env: "ex_bad_env bs = ?e \<lparr> list_badact := bs \<rparr>" for bs
    by (simp add: ex_bad_env_def)
  have ne: "hash_inv ?e \<noteq> []" "hash_dsc ?e \<noteq> []"
    using ex_bad_facts(1,2) by (simp_all add: env)
  have one: "\<exists>b\<in>set [''nothing'']. sublist b (obs ex_bad_new)"
    and many: "\<exists>b\<in>set [''nothing'', ''not'', ''thing'']. sublist b (obs ex_bad_new)"
    and none: "\<forall>b\<in>set [''xyz'']. \<not> sublist b (obs ex_bad_new)"
    using ex_bad_facts(5-9) by simp_all
  from bad_action_penalty [of ?e ex_bad_new ex_old "''go ''" "[''nothing'']" "[''xyz'']"]
    ne one none ex_bad_facts(10)
  have a: "calc_reward (ex_bad_env [''nothing'']) ex_bad_new ex_old ''go '' = Inr 3"
    by (auto simp add: env)
  from bad_action_penalty [of ?e ex_bad_new ex_old "''go ''"
      "[''nothing'', ''not'', ''thing'']" "[''xyz'']"]
    ne many none ex_bad_facts(10)
  have b: "calc_reward (ex_bad_env [''nothing'', ''not'', ''thing'']) ex_bad_new ex_old ''go ''
             = Inr 3"
    by (auto simp add: env)
  from ex_bad_facts a b show ?thesis
    by blast
qed

lemma verb_token:
  assumes "CHR '' '' \<in> set cmd"
  shows "py_slice_to cmd (py_find cmd CHR '' '') = takeWhile (\<lambda>c. c \<noteq> CHR '' '') cmd"
  using assms takeWhile_eq_take [of "\<lambda>c. c \<noteq> CHR '' ''" cmd]
  by (simp add: py_slice_to_def py_find_def)

lemma split_at_first_space:
  assumes "CHR '' '' \<in> set cmd"
  shows "\<exists>rest. cmd = takeWhile (\<lambda>c. c \<noteq> CHR '' '') cmd @ CHR '' '' # rest"
proof -
  let ?P = "\<lambda>c. c \<noteq> CHR '' ''"
  have "dropWhile ?P cmd \<noteq> []"
    using assms by simp
  then obtain c rest where d: "dropWhile ?P cmd = c # rest"
    by (cases "dropWhile ?P cmd") auto
  then have "\<not> ?P c"
    using hd_dropWhile [of ?P cmd] by simp
  with d have "dropWhile ?P cmd = CHR '' '' # rest" by simp
  then have "cmd = takeWhile ?P cmd @ CHR '' '' # rest"
    using takeWhile_dropWhile_id [of ?P cmd] by simp
  then show ?thesis ..
qed

lemma py_index_in_set: "py_index xs i = Inr x \<Longrightarrow> x \<in> set xs"
  by (auto simp add: py_index_def split: if_splits)

lemma conv_to_cmd_space:
  assumes "vocab_ok e" "conv_to_cmd e a = Inr cmd"
  shows "CHR '' '' \<in> set cmd"
proof (cases "flatten_actspec e")
  case True
  let ?L = "concat (map (\<lambda>v. map (\<lambda>obj. v @ '' '' @ obj) (list_obj e)) (list_verb e))"
  from True assms obtain i where "py_index ?L i = Inr cmd"
    by (cases a) (simp_all add: conv_to_cmd_def vocab_ok_def)
  then have "cmd \<in> set ?L" by (rule py_index_in_set)
  then show ?thesis by auto
next
  case False
  with assms(2) show ?thesis
    by (cases a) (auto simp add: conv_to_cmd_def split: sum.splits if_splits)
qed

text \<open>
  Claim C6. For every command issued by the translator, the verb token that the reward
  function cuts out of the command is the part of the command before its first space
  (every such command contains a space). The reward is the reward of the same turn with an
  empty list of admissible commands, plus \<open>verb_in_adm = 1\<close> if and only if that verb token
  is a substring of at least one admissible command of the new state.
\<close>

theorem admissibility_bonus:
  assumes "vocab_ok e0" and "conv_to_cmd e0 a = Inr cmd"
  shows "py_slice_to cmd (py_find cmd CHR '' '') = takeWhile (\<lambda>c. c \<noteq> CHR '' '') cmd
       \<and> (\<exists>rest. cmd = takeWhile (\<lambda>c. c \<noteq> CHR '' '') cmd @ CHR '' '' # rest)
       \<and> calc_reward e new_state old_state cmd
           = map_sum id
               (\<lambda>r. r + (if \<exists>adm\<in>set (admissible_commands new_state).
                               sublist (takeWhile (\<lambda>c. c \<noteq> CHR '' '') cmd) adm
                         then verb_in_adm REWARD_DICT else 0))
               (calc_reward e (new_state \<lparr> admissible_commands := [] \<rparr>) old_state cmd)
       \<and> verb_in_adm REWARD_DICT = 1"
proof -
  have sp: "CHR '' '' \<in> set cmd"
    using assms by (rule conv_to_cmd_space)
  have tok: "py_slice_to cmd (py_find cmd CHR '' '') = takeWhile (\<lambda>c. c \<noteq> CHR '' '') cmd"
    using sp by (rule verb_token)
  have spl: "\<exists>rest. cmd = takeWhile (\<lambda>c. c \<noteq> CHR '' '') cmd @ CHR '' '' # rest"
    using sp by (rule split_at_first_space)
  have rew: "calc_reward e new_state old_state cmd
           = map_sum id
               (\<lambda>r. r + (if \<exists>adm\<in>set (admissible_commands new_state).
                               sublist (takeWhile (\<lambda>c. c \<noteq> CHR '' '') cmd) adm
                         then verb_in_adm REWARD_DICT else 0))
               (calc_reward e (new_state \<lparr> admissible_commands := [] \<rparr>) old_state cmd)"
    by (simp add: calc_reward_closed tok REWARD_DICT_def)
  have "verb_in_adm REWARD_DICT = 1"
    by (simp add: REWARD_DICT_def)
  with tok spl rew show ?thesis
    by blast
qed

lemma ex_cmd:
  "vocab_ok ex_env" "conv_to_cmd ex_env (ActPair 1 1) = Inr ''take key''"
  by (simp_all add: vocab_ok_def ex_env_def init_env_def conv_to_cmd_def py_index_def)

theorem admissibility_bonus_witness:
  "vocab_ok ex_env \<and> conv_to_cmd ex_env (ActPair 1 1) = Inr ''take key''
   \<and> py_slice_to ''take key'' (py_find ''take key'' CHR '' '') = ''take''
   \<and> calc_reward (update_hash_cache ex_hash ex_env ex_new)
        (ex_new \<lparr> admissible_commands := [''look'', ''take the key''] \<rparr>) ex_old ''take key''
      = Inr 5"
proof -
  let ?e = "update_hash_cache ex_hash ex_env ex_new"
  let ?n = "ex_new \<lparr> admissible_commands := [''look'', ''take the key''] \<rparr>"
  note r = admissibility_bonus [OF ex_cmd, of ?e ?n ex_old]
  have t: "takeWhile (\<lambda>c. c \<noteq> CHR '' '') ''take key'' = ''take''"
    by simp
  have b: "calc_reward ?e (?n \<lparr> admissible_commands := [] \<rparr>) ex_old ''take key'' = Inr 4"
    by code_simp
  have m: "\<exists>adm\<in>set (admissible_commands ?n). sublist ''take'' adm"
    by code_simp
  from r t have "py_slice_to ''take key'' (py_find ''take key'' CHR '' '') = ''take''"
    by simp
  moreover from r t b m have "calc_reward ?e ?n ex_old ''take key'' = Inr 5"
    by simp
  ultimately show ?thesis
    using ex_cmd by simp
qed

lemma cache_ok_nonempty: "cache_ok e \<Longrightarrow> hash_dsc e \<noteq> [] \<and> hash_inv e \<noteq> []"
  by (auto simp add: cache_ok_def HASH_LIST_LENGTH_def)

lemma calc_reward_cong:
  assumes "hash_inv e' = hash_inv e" "hash_dsc e' = hash_dsc e" "list_badact e' = list_badact e"
  shows "calc_reward e' n old c = calc_reward e n old c"
  using assms by (simp add: calc_reward_closed)

lemma step_env_inv:
  assumes "step_env h gm e a = Inr (ts, e')" and "\<not> episode_ended e"
  shows "\<exists>old_state new_state cmd r.
           state e = Some old_state \<and> state e' = Some new_state
         \<and> conv_to_cmd e a = Inr cmd
         \<and> hash_dsc e' = tl (hash_dsc e @ [h (description new_state)])
         \<and> hash_inv e' = tl (hash_inv e @ [h (inventory new_state)])
         \<and> list_badact e' = list_badact e
         \<and> calc_reward e' new_state old_state cmd = Inr r
         \<and> reward_of ts = Some r"
  using assms unfolding step_env_def
  by (auto simp add: Let_def update_hash_cache_def
      split: option.splits sum.splits prod.splits if_splits)

lemma step_env_running:
  assumes "cache_ok e" and "\<not> episode_ended e" and "state e = Some old_state"
    and "conv_to_cmd e a = Inr cmd" and "curr_TWGym e = Some g"
    and "gym_step gm g cmd = ((ob, sc, dn, nfo), g')"
  shows "\<exists>ts e' r. step_env h gm e a = Inr (ts, e')
         \<and> state e' = Some (conv_to_state ob sc dn nfo)
         \<and> curr_TWGym e' = Some g'
         \<and> episode_ended e' = (done_f old_state \<or> won old_state \<or> lost old_state)
         \<and> calc_reward e' (conv_to_state ob sc dn nfo) old_state cmd = Inr r
         \<and> reward_of ts = Some r"
proof -
  let ?new = "conv_to_state ob sc dn nfo"
  let ?e1 = "if done_f old_state \<or> won old_state \<or> lost old_state
             then e \<lparr> episode_ended := True \<rparr> else e"
  let ?e3 = "update_hash_cache h (?e1 \<lparr> curr_TWGym := Some g', state := Some ?new \<rparr>) ?new"
  have ne: "hash_inv ?e3 \<noteq> []" "hash_dsc ?e3 \<noteq> []"
    using cache_ok_nonempty [OF assms(1)] by (simp_all add: update_hash_cache_def)
  then obtain r where r: "calc_reward ?e3 ?new old_state cmd = Inr r"
    by (simp add: calc_reward_closed)
  have c: "conv_to_cmd ?e1 a = Inr cmd" "curr_TWGym ?e1 = Some g"
    using assms(4,5) by simp_all
  have "step_env h gm e a
          = Inr (if episode_ended ?e3 then Termination (conv_pass_state ?new) r
                 else Transition (conv_pass_state ?new) r, ?e3)"
    using assms(2,3,6) c r by (simp add: step_env_def Let_def)
  moreover have "state ?e3 = Some ?new" "curr_TWGym ?e3 = Some g'"
    "episode_ended ?e3 = (done_f old_state \<or> won old_state \<or> lost old_state)"
    using assms(2) by (simp_all add: update_hash_cache_def)
  ultimately show ?thesis
    using r by (intro exI [of _ "if episode_ended ?e3 then Termination (conv_pass_state ?new) r
                 else Transition (conv_pass_state ?new) r"] exI [of _ ?e3] exI [of _ r]) simp
qed

lemma tl_thrice:
  "3 \<le> length xs \<Longrightarrow> tl (tl (tl (xs @ [x]) @ [y]) @ [z]) = drop 3 xs @ [x, y, z]"
  by (auto simp add: numeral_3_eq_3 Suc_le_length_iff)

lemma repeat_count_thrice:
  "x \<notin> set buf \<Longrightarrow> repeat_count (buf @ [x, x, x]) = 3"
  by (simp add: repeat_count_def)

lemma ex_run:
  "step_env ex_hash ex_gym_still (ex_env_at 0) (ActPair 0 0) = Inr (ex_ts_at 1, ex_env_at 1)"
  "step_env ex_hash ex_gym_still (ex_env_at 1) (ActPair 0 0) = Inr (ex_ts_at 2, ex_env_at 2)"
  "step_env ex_hash ex_gym_still (ex_env_at 2) (ActPair 0 0) = Inr (ex_ts_at 3, ex_env_at 3)"
  "step_env ex_hash ex_gym_still (ex_env_at 3) (ActPair 0 0) = Inr (ex_ts_at 4, ex_env_at 4)"
  "state (ex_env_at 0) = Some ex_still" "state (ex_env_at 1) = Some ex_still"
  "state (ex_env_at 2) = Some ex_still" "state (ex_env_at 3) = Some ex_still"
  "state (ex_env_at 4) = Some ex_still"
  "\<not> episode_ended (ex_env_at 0)" "\<not> episode_ended (ex_env_at 1)"
  "\<not> episode_ended (ex_env_at 2)" "\<not> episode_ended (ex_env_at 3)"
  by code_simp+

lemma ex_still_neutral:
  "score ex_still = 0" "\<not> won ex_still" "\<not> lost ex_still" "obs ex_still = ''ok''"
  "description ex_still = ''room''" "inventory ex_still = ''key''"
  "admissible_commands ex_still = []"
  "list_badact (ex_env_at 0) = [''nothing'', ''not'']"
  "list_badact (ex_env_at 1) = [''nothing'', ''not'']"
  "\<not> sublist ''nothing'' ''ok''" "\<not> sublist ''not'' ''ok''"
  by code_simp+

text \<open>
  Claim C1 as stated fails in its example. A game that answers every command with the
  same description, inventory, score and observation is played for four turns from a
  fresh environment. Turns 2, 3 and 4 are three consecutive turns with the same
  description and inventory and all other terms neutral, and the third of them is rewarded
  with -3, not -2: the entry left by turn 1 is still in both buffers and is counted.
\<close>

theorem loop_term_counterexample:
  "step_env ex_hash ex_gym_still (ex_env_at 1) (ActPair 0 0) = Inr (ex_ts_at 2, ex_env_at 2)
   \<and> step_env ex_hash ex_gym_still (ex_env_at 2) (ActPair 0 0) = Inr (ex_ts_at 3, ex_env_at 3)
   \<and> step_env ex_hash ex_gym_still (ex_env_at 3) (ActPair 0 0) = Inr (ex_ts_at 4, ex_env_at 4)
   \<and> state (ex_env_at 1) = Some ex_still
   \<and> state (ex_env_at 2) = Some ex_still
   \<and> state (ex_env_at 3) = Some ex_still
   \<and> state (ex_env_at 4) = Some ex_still
   \<and> description ex_still = ''room'' \<and> inventory ex_still = ''key''
   \<and> \<not> won ex_still \<and> \<not> lost ex_still \<and> admissible_commands ex_still = []
   \<and> obs ex_still = ''ok'' \<and> list_badact (ex_env_at 1) = [''nothing'', ''not'']
   \<and> \<not> sublist ''nothing'' ''ok'' \<and> \<not> sublist ''not'' ''ok''
   \<and> reward_of (ex_ts_at 4) = Some (- 3)
   \<and> (- 3::int) \<noteq> - 2"
proof -
  have "reward_of (ex_ts_at 4) = Some (- 3)"
    by code_simp
  with ex_run ex_still_neutral show ?thesis
    by simp
qed

text \<open>
  Claim C1, amended. A step of a running episode, from a state whose buffers have length
  10, returns; it appends the fingerprints of the new state to the buffers (dropping the
  oldest entries) before the reward is computed. The two counts of the reward function are
  the numbers of entries of the updated buffers equal to their most recent entry, and both
  are at least 1. If either count is at most 1 the reward gains \<open>change_reward = 1\<close>;
  otherwise it loses the minimum of the inventory count minus 1, the description count
  minus 1 and \<open>max_loop_pun = 5\<close>; the other addends are the score difference, the bad-action
  penalty, the terminal term and the admissibility bonus. If three consecutive steps yield
  the same description and inventory, whose fingerprints are not among the last seven
  entries of the buffers before the first of these steps (the entries that are still in
  the buffers after the third), and all other terms are neutral on the third step, then
  both counts are 3 and the reward of the third step is exactly -2.
\<close>

theorem loop_term:
  fixes e :: "'g TWGameEnv"
  assumes "cache_ok e" and "\<not> episode_ended e" and "state e = Some old_state"
    and "conv_to_cmd e a = Inr cmd" and "curr_TWGym e = Some g"
    and "gym_step gm g cmd = ((ob, sc, dn, nfo), g')"
    and "new_state = conv_to_state ob sc dn nfo"
  shows "(\<exists>ts e' inv_change des_change.
            step_env h gm e a = Inr (ts, e')
          \<and> state e' = Some new_state \<and> curr_TWGym e' = Some g' \<and> cache_ok e'
          \<and> hash_inv e' = tl (hash_inv e) @ [h (inventory new_state)]
          \<and> hash_dsc e' = tl (hash_dsc e) @ [h (description new_state)]
          \<and> inv_change = repeat_count (hash_inv e')
          \<and> des_change = repeat_count (hash_dsc e')
          \<and> calc_cache_changes (hash_inv e') = Inr inv_change
          \<and> calc_cache_changes (hash_dsc e') = Inr des_change
          \<and> 1 \<le> inv_change \<and> 1 \<le> des_change
          \<and> reward_of ts
              = Some (score new_state - score old_state
                  - (if \<exists>b\<in>set (list_badact e). sublist b (obs new_state) then 1 else 0)
                  + (if inv_change \<le> 1 \<or> des_change \<le> 1 then change_reward REWARD_DICT
                     else - min (inv_change - 1)
                              (min (des_change - 1) (max_loop_pun REWARD_DICT)))
                  + (if won new_state then 100 else if lost new_state then - 100 else 0)
                  + (if \<exists>adm\<in>set (admissible_commands new_state).
                          sublist (py_slice_to cmd (py_find cmd CHR '' '')) adm
                     then 1 else 0)))
       \<and> change_reward REWARD_DICT = 1 \<and> max_loop_pun REWARD_DICT = 5
       \<and> (step_env h gm e a = Inr (ts1, e1) \<and> step_env h gm e1 a2 = Inr (ts2, e2)
          \<and> step_env h gm e2 a3 = Inr (ts3, e3)
          \<and> \<not> episode_ended e1 \<and> \<not> episode_ended e2
          \<and> state e1 = Some s1 \<and> state e2 = Some s2 \<and> state e3 = Some s3
          \<and> description s1 = d \<and> description s2 = d \<and> description s3 = d
          \<and> inventory s1 = i \<and> inventory s2 = i \<and> inventory s3 = i
          \<and> h d \<notin> set (drop 3 (hash_dsc e)) \<and> h i \<notin> set (drop 3 (hash_inv e))
          \<and> score s3 = score s2 \<and> \<not> won s3 \<and> \<not> lost s3
          \<and> (\<forall>b\<in>set (list_badact e). \<not> sublist b (obs s3))
          \<and> conv_to_cmd e2 a3 = Inr c3
          \<and> (\<forall>adm\<in>set (admissible_commands s3).
                \<not> sublist (py_slice_to c3 (py_find c3 CHR '' '')) adm)
          \<longrightarrow> repeat_count (hash_dsc e3) = 3 \<and> repeat_count (hash_inv e3) = 3
            \<and> reward_of ts3 = Some (- 2))"
proof -
  have ne: "hash_dsc e \<noteq> []" "hash_inv e \<noteq> []"
    using cache_ok_nonempty [OF assms(1)] by simp_all
  have len: "length (hash_dsc e) = 10" "length (hash_inv e) = 10"
    using assms(1) by (simp_all add: cache_ok_def HASH_LIST_LENGTH_def)
  have cst: "change_reward REWARD_DICT = 1" "max_loop_pun REWARD_DICT = 5"
    by (simp_all add: REWARD_DICT_def)
  have one: "\<exists>ts e' inv_change des_change.
            step_env h gm e a = Inr (ts, e')
          \<and> state e' = Some new_state \<and> curr_TWGym e' = Some g' \<and> cache_ok e'
          \<and> hash_inv e' = tl (hash_inv e) @ [h (inventory new_state)]
          \<and> hash_dsc e' = tl (hash_dsc e) @ [h (description new_state)]
          \<and> inv_change = repeat_count (hash_inv e')
          \<and> des_change = repeat_count (hash_dsc e')
          \<and> calc_cache_changes (hash_inv e') = Inr inv_change
          \<and> calc_cache_changes (hash_dsc e') = Inr des_change
          \<and> 1 \<le> inv_change \<and> 1 \<le> des_change
          \<and> reward_of ts
              = Some (score new_state - score old_state
                  - (if \<exists>b\<in>set (list_badact e). sublist b (obs new_state) then 1 else 0)
                  + (if inv_change \<le> 1 \<or> des_change \<le> 1 then change_reward REWARD_DICT
                     else - min (inv_change - 1)
                              (min (des_change - 1) (max_loop_pun REWARD_DICT)))
                  + (if won new_state then 100 else if lost new_state then - 100 else 0)
                  + (if \<exists>adm\<in>set (admissible_commands new_state).
                          sublist (py_slice_to cmd (py_find cmd CHR '' '')) adm
                     then 1 else 0))"
  proof -
    from step_env_running [OF assms(1-6), of h] assms(7)
    obtain ts e' r where st: "step_env h gm e a = Inr (ts, e')"
      and fr: "state e' = Some new_state" "curr_TWGym e' = Some g'"
      and rw: "calc_reward e' new_state old_state cmd = Inr r" "reward_of ts = Some r"
      by blast
    from step_env_inv [OF st assms(2)] fr(1) assms(3)
    have bd: "hash_dsc e' = tl (hash_dsc e @ [h (description new_state)])"
      and bi: "hash_inv e' = tl (hash_inv e @ [h (inventory new_state)])"
      and bb: "list_badact e' = list_badact e"
      by auto
    have bd': "hash_dsc e' = tl (hash_dsc e) @ [h (description new_state)]"
      and bi': "hash_inv e' = tl (hash_inv e) @ [h (inventory new_state)]"
      using bd bi ne by simp_all
    then have ne': "hash_dsc e' \<noteq> []" "hash_inv e' \<noteq> []"
      by simp_all
    have ok': "cache_ok e'"
      using bd' bi' ne assms(1) by (simp add: cache_ok_def HASH_LIST_LENGTH_def)
    have cc: "calc_cache_changes (hash_inv e') = Inr (repeat_count (hash_inv e'))"
      "calc_cache_changes (hash_dsc e') = Inr (repeat_count (hash_dsc e'))"
      using ne' by (simp_all add: calc_cache_changes_nonempty)
    have ge: "1 \<le> repeat_count (hash_inv e')" "1 \<le> repeat_count (hash_dsc e')"
      using ne' by (simp_all add: repeat_count_ge_1)
    let ?F = "score new_state - score old_state
                  - (if \<exists>b\<in>set (list_badact e). sublist b (obs new_state) then 1 else 0)
                  + (if repeat_count (hash_inv e') \<le> 1 \<or> repeat_count (hash_dsc e') \<le> 1
                     then change_reward REWARD_DICT
                     else - min (repeat_count (hash_inv e') - 1)
                              (min (repeat_count (hash_dsc e') - 1) (max_loop_pun REWARD_DICT)))
                  + (if won new_state then 100 else if lost new_state then - 100 else 0)
                  + (if \<exists>adm\<in>set (admissible_commands new_state).
                          sublist (py_slice_to cmd (py_find cmd CHR '' '')) adm
                     then 1 else 0)"
    have cf: "calc_reward e' new_state old_state cmd = Inr ?F"
      by (simp only: calc_reward_closed ne' bb cst if_False simp_thms)
    from rw(1) [symmetric] cf have "Inr r = (Inr ?F :: error + int)"
      by (rule trans)
    then have "r = ?F"
      by (simp only: sum.inject)
    with rw(2) have "reward_of ts = Some ?F"
      by (simp only:)
    with st fr ok' bd' bi' cc ge show ?thesis
      by blast
  qed
  have three: "repeat_count (hash_dsc e3) = 3 \<and> repeat_count (hash_inv e3) = 3
            \<and> reward_of ts3 = Some (- 2)"
    if st: "step_env h gm e a = Inr (ts1, e1)" "step_env h gm e1 a2 = Inr (ts2, e2)"
      "step_env h gm e2 a3 = Inr (ts3, e3)"
      and run: "\<not> episode_ended e1" "\<not> episode_ended e2"
      and sts: "state e1 = Some s1" "state e2 = Some s2" "state e3 = Some s3"
      and sc: "description s1 = d" "description s2 = d" "description s3 = d"
        "inventory s1 = i" "inventory s2 = i" "inventory s3 = i"
      and nov: "h d \<notin> set (drop 3 (hash_dsc e))" "h i \<notin> set (drop 3 (hash_inv e))"
      and neu: "score s3 = score s2" "\<not> won s3" "\<not> lost s3"
        "\<forall>b\<in>set (list_badact e). \<not> sublist b (obs s3)"
      and c3: "conv_to_cmd e2 a3 = Inr c3"
      and adm: "\<forall>adm\<in>set (admissible_commands s3).
                \<not> sublist (py_slice_to c3 (py_find c3 CHR '' '')) adm"
  proof -
    from step_env_inv [OF st(1) assms(2)] sts(1) sc
    have b1: "hash_dsc e1 = tl (hash_dsc e @ [h d])" "hash_inv e1 = tl (hash_inv e @ [h i])"
      "list_badact e1 = list_badact e"
      by auto
    from step_env_inv [OF st(2) run(1)] sts(2) sc
    have b2: "hash_dsc e2 = tl (hash_dsc e1 @ [h d])" "hash_inv e2 = tl (hash_inv e1 @ [h i])"
      "list_badact e2 = list_badact e1"
      by auto
    from step_env_inv [OF st(3) run(2)] sts(2,3) c3 sc
    obtain r where b3: "hash_dsc e3 = tl (hash_dsc e2 @ [h d])"
      "hash_inv e3 = tl (hash_inv e2 @ [h i])" "list_badact e3 = list_badact e2"
      and rw: "calc_reward e3 s3 s2 c3 = Inr r" "reward_of ts3 = Some r"
      by auto
    have bd: "hash_dsc e3 = drop 3 (hash_dsc e) @ [h d, h d, h d]"
      using b1(1) b2(1) b3(1) tl_thrice [of "hash_dsc e" "h d" "h d" "h d"] len(1) by simp
    have bi: "hash_inv e3 = drop 3 (hash_inv e) @ [h i, h i, h i]"
      using b1(2) b2(2) b3(2) tl_thrice [of "hash_inv e" "h i" "h i" "h i"] len(2) by simp
    have rd: "repeat_count (hash_dsc e3) = 3"
      unfolding bd using nov(1) by (rule repeat_count_thrice)
    have ri: "repeat_count (hash_inv e3) = 3"
      unfolding bi using nov(2) by (rule repeat_count_thrice)
    have ne3: "hash_dsc e3 \<noteq> []" "hash_inv e3 \<noteq> []"
      by (simp_all add: bd bi)
    have bad: "list_badact e3 = list_badact e"
      using b1(3) b2(3) b3(3) by simp
    have "calc_reward e3 s3 s2 c3 = Inr (- 2)"
      using ne3 rd ri bad neu adm by (simp add: calc_reward_closed)
    with rw have "reward_of ts3 = Some (- 2)"
      by simp
    with rd ri show ?thesis
      by simp
  qed
  from one cst three show ?thesis
    by blast
qed

lemma ex_first_turn:
  "cache_ok (ex_env_at 0)"
  "conv_to_cmd (ex_env_at 0) (ActPair 0 0) = Inr ''go ''"
  "conv_to_cmd (ex_env_at 2) (ActPair 0 0) = Inr ''go ''"
  "curr_TWGym (ex_env_at 0) = Some 1"
  "gym_step ex_gym_still 1 ''go ''
     = ((''ok'', 0, False,
         \<lparr> info_won = False, info_lost = False, info_description = ''room'',
           info_inventory = ''key'', info_admissible_commands = [], info_entities = [] \<rparr>), 2)"
  "ex_still = conv_to_state ''ok'' 0 False
         \<lparr> info_won = False, info_lost = False, info_description = ''room'',
           info_inventory = ''key'', info_admissible_commands = [], info_entities = [] \<rparr>"
  "ex_hash ''room'' \<notin> set (drop 3 (hash_dsc (ex_env_at 0)))"
  "ex_hash ''key'' \<notin> set (drop 3 (hash_inv (ex_env_at 0)))"
  by code_simp+

theorem loop_term_witness:
  "cache_ok (ex_env_at 0) \<and> \<not> episode_ended (ex_env_at 0)
   \<and> state (ex_env_at 0) = Some ex_still
   \<and> conv_to_cmd (ex_env_at 0) (ActPair 0 0) = Inr ''go ''
   \<and> curr_TWGym (ex_env_at 0) = Some 1
   \<and> step_env ex_hash ex_gym_still (ex_env_at 0) (ActPair 0 0) = Inr (ex_ts_at 1, ex_env_at 1)
   \<and> step_env ex_hash ex_gym_still (ex_env_at 1) (ActPair 0 0) = Inr (ex_ts_at 2, ex_env_at 2)
   \<and> step_env ex_hash ex_gym_still (ex_env_at 2) (ActPair 0 0) = Inr (ex_ts_at 3, ex_env_at 3)
   \<and> ex_hash ''room'' \<notin> set (drop 3 (hash_dsc (ex_env_at 0)))
   \<and> ex_hash ''key'' \<notin> set (drop 3 (hash_inv (ex_env_at 0)))
   \<and> repeat_count (hash_dsc (ex_env_at 3)) = 3
   \<and> repeat_count (hash_inv (ex_env_at 3)) = 3
   \<and> reward_of (ex_ts_at 3) = Some (- 2)"
proof -
  note r = loop_term [OF ex_first_turn(1) ex_run(10) ex_run(5) ex_first_turn(2)
      ex_first_turn(4) ex_first_turn(5) ex_first_turn(6),
      where h = ex_hash
        and ?ts1.0 = "ex_ts_at 1" and ?e1.0 = "ex_env_at 1" and ?a2.0 = "ActPair 0 0"
        and ?ts2.0 = "ex_ts_at 2" and ?e2.0 = "ex_env_at 2" and ?a3.0 = "ActPair 0 0"
        and ?ts3.0 = "ex_ts_at 3" and ?e3.0 = "ex_env_at 3"
        and ?s1.0 = ex_still and ?s2.0 = ex_still and ?s3.0 = ex_still
        and d = "''room''" and i = "''key''" and ?c3.0 = "''go ''"]
  have bad: "\<forall>b\<in>set (list_badact (ex_env_at 0)). \<not> sublist b (obs ex_still)"
    by (simp add: ex_still_neutral)
  have adm: "\<forall>adm\<in>set (admissible_commands ex_still).
                \<not> sublist (py_slice_to ''go '' (py_find ''go '' CHR '' '')) adm"
    by (simp add: ex_still_neutral)
  from r ex_run ex_still_neutral(2,3,5,6) ex_first_turn bad adm
  have "repeat_count (hash_dsc (ex_env_at 3)) = 3 \<and> repeat_count (hash_inv (ex_env_at 3)) = 3
     \<and> reward_of (ex_ts_at 3) = Some (- 2)"
    by blast
  with ex_first_turn ex_run show ?thesis
    by blast
qed

lemma start_game_frame:
  "hash_dsc (start_game gm e) = hash_dsc e" "hash_inv (start_game gm e) = hash_inv e"
  "episode_ended (start_game gm e) = episode_ended e"
  "\<exists>st. state (start_game gm e) = Some st"
  by (simp_all add: start_game_def split: prod.splits)

lemma reset_env_frame:
  "\<exists>ts e'. reset_env gm e = Inr (ts, e') \<and> hash_dsc e' = hash_dsc e
      \<and> hash_inv e' = hash_inv e \<and> \<not> episode_ended e'"
proof -
  let ?e2 = "start_game gm (e \<lparr> episode_ended := False \<rparr>)"
  obtain st where st: "state ?e2 = Some st"
    using start_game_frame(4) by blast
  then have "reset_env gm e = Inr (Restart (conv_pass_state st), ?e2)"
    by (simp add: reset_env_def Let_def)
  moreover have "hash_dsc ?e2 = hash_dsc e" "hash_inv ?e2 = hash_inv e" "\<not> episode_ended ?e2"
    by (simp_all add: start_game_frame)
  ultimately show ?thesis
    by blast
qed

text \<open>
  Claim C10. The two buffers are set by the constructor (ten zeros each) and nowhere
  else outside the cache update. Starting a game leaves both unchanged. The reset routine
  always returns, with the episode marked as running, and both buffers are exactly what
  they were before; the same holds for a step taken after the episode has ended, which is
  a reset. So the cache content at the end of one episode is the content at the start of
  the next.
\<close>

theorem cache_persists_across_reset:
  fixes e :: "'g TWGameEnv"
  shows "hash_dsc (init_env vs os bs fl :: 'g TWGameEnv) = replicate HASH_LIST_LENGTH 0
       \<and> hash_inv (init_env vs os bs fl :: 'g TWGameEnv) = replicate HASH_LIST_LENGTH 0
       \<and> hash_dsc (start_game gm e) = hash_dsc e \<and> hash_inv (start_game gm e) = hash_inv e
       \<and> (\<exists>ts e'. reset_env gm e = Inr (ts, e') \<and> hash_dsc e' = hash_dsc e
              \<and> hash_inv e' = hash_inv e \<and> \<not> episode_ended e')
       \<and> (episode_ended e \<longrightarrow>
            (\<exists>ts e'. step_env h gm e a = Inr (ts, e') \<and> hash_dsc e' = hash_dsc e
              \<and> hash_inv e' = hash_inv e))"
proof -
  have init: "hash_dsc (init_env vs os bs fl :: 'g TWGameEnv) = replicate HASH_LIST_LENGTH 0"
    "hash_inv (init_env vs os bs fl :: 'g TWGameEnv) = replicate HASH_LIST_LENGTH 0"
    by (simp_all add: init_env_def)
  have stp: "\<exists>ts e'. step_env h gm e a = Inr (ts, e') \<and> hash_dsc e' = hash_dsc e
              \<and> hash_inv e' = hash_inv e" if "episode_ended e"
  proof -
    from that have "step_env h gm e a = reset_env gm e"
      by (simp add: step_env_def)
    with reset_env_frame [of gm e] show ?thesis
      by auto
  qed
  from init start_game_frame(1,2) [of gm e] reset_env_frame [of gm e] stp show ?thesis
    by blast
qed

lemma ex_ended:
  "episode_ended ((feed ex_hash ex_env (ex_states 3)) \<lparr> episode_ended := True \<rparr>)"
  "hash_dsc ((feed ex_hash ex_env (ex_states 3)) \<lparr> episode_ended := True \<rparr>)
     = [0, 0, 0, 0, 0, 0, 0, 1, 2, 3]"
  "hash_inv ((feed ex_hash ex_env (ex_states 3)) \<lparr> episode_ended := True \<rparr>)
     = [0, 0, 0, 0, 0, 0, 0, 1, 2, 3]"
  by code_simp+

theorem cache_persists_across_reset_witness:
  "episode_ended ((feed ex_hash ex_env (ex_states 3)) \<lparr> episode_ended := True \<rparr>)
   \<and> (\<exists>ts e'. step_env ex_hash ex_gym
                 ((feed ex_hash ex_env (ex_states 3)) \<lparr> episode_ended := True \<rparr>) (ActPair 0 0)
               = Inr (ts, e')
          \<and> hash_dsc e' = [0, 0, 0, 0, 0, 0, 0, 1, 2, 3]
          \<and> hash_inv e' = [0, 0, 0, 0, 0, 0, 0, 1, 2, 3])"
proof -
  note r = cache_persists_across_reset
    [of "[]" "[]" "[]" False ex_gym "(feed ex_hash ex_env (ex_states 3)) \<lparr> episode_ended := True \<rparr>"
      ex_hash "ActPair 0 0"]
  from r ex_ended(1) obtain ts e' where
    "step_env ex_hash ex_gym ((feed ex_hash ex_env (ex_states 3)) \<lparr> episode_ended := True \<rparr>)
       (ActPair 0 0) = Inr (ts, e')"
    "hash_dsc e' = hash_dsc ((feed ex_hash ex_env (ex_states 3)) \<lparr> episode_ended := True \<rparr>)"
    "hash_inv e' = hash_inv ((feed ex_hash ex_env (ex_states 3)) \<lparr> episode_ended := True \<rparr>)"
    by blast
  with ex_ended show ?thesis
    by auto
qed

end
